theory Spec2Isabelle
  imports Main "HOL-Library.AList" "HOL-Library.Multiset"
begin

section \<open>Data model\<close>

text \<open>
  The dependency graph of \<^verbatim>\<open>src/graph\<close>: \<^verbatim>\<open>node.py\<close>, \<^verbatim>\<open>edge.py\<close> and
  \<^verbatim>\<open>graph.py\<close>. Python raises exceptions; here every raise is a value \<open>Inl e\<close> of
  a sum type. The error \<open>UnknownNodeError\<close> belongs to the removal operation, which
  the sources only call and never define; everything in the sources raises
  \<^verbatim>\<open>ValueError\<close> with a message, and a missing dictionary key is a \<^verbatim>\<open>KeyError\<close>.
\<close>

datatype error = ValueError string | KeyError string | UnknownNodeError string

subsection \<open>Dictionaries and sets\<close>

text \<open>
  A Python \<^verbatim>\<open>dict\<close> keeps its keys in insertion order, so it is an association
  list with distinct keys: \<open>map_of\<close> reads it, \<open>AList.update\<close> writes it (a known
  key keeps its place, a new key goes to the end).

  A Python \<^verbatim>\<open>set\<close> that the code iterates over is a duplicate-free list; the order
  of the list stands for the iteration order of the set, which Python leaves
  unspecified. \<open>set_add\<close> puts a new element last; every theorem about a query is
  proved for every order of these lists (see \<open>reachable\<close> below). Sets that are only
  tested for membership are HOL sets.
\<close>

type_synonym ('k, 'v) dict = "('k \<times> 'v) list"

definition dict_has :: "('k, 'v) dict \<Rightarrow> 'k \<Rightarrow> bool" where
  "dict_has d k = (map_of d k \<noteq> None)"

definition dict_keys :: "('k, 'v) dict \<Rightarrow> 'k list" where
  "dict_keys d = map fst d"

definition set_add :: "'a list \<Rightarrow> 'a \<Rightarrow> 'a list" where
  "set_add xs x = (if x \<in> set xs then xs else xs @ [x])"

text \<open>
  \<^verbatim>\<open>defaultdict(set)\<close>: reading \<^verbatim>\<open>d[k]\<close> for a key that is absent stores an empty
  set under \<open>k\<close> and returns it. \<open>dd_touch\<close> is the dictionary after the read,
  \<open>dd_get\<close> the set that is read. \<^verbatim>\<open>d.get(k, set())\<close> reads the same value and
  leaves the dictionary alone.
\<close>

definition dd_get :: "('k, 'a list) dict \<Rightarrow> 'k \<Rightarrow> 'a list" where
  "dd_get d k = (case map_of d k of None \<Rightarrow> [] | Some xs \<Rightarrow> xs)"

definition dd_touch :: "('k, 'a list) dict \<Rightarrow> 'k \<Rightarrow> ('k, 'a list) dict" where
  "dd_touch d k = (case map_of d k of None \<Rightarrow> d @ [(k, [])] | Some xs \<Rightarrow> d)"

definition dd_add :: "('k, 'a list) dict \<Rightarrow> 'k \<Rightarrow> 'a \<Rightarrow> ('k, 'a list) dict" where
  "dd_add d k x = AList.update k (set_add (dd_get d k) x) (dd_touch d k)"

subsection \<open>Node\<close>

datatype NodeType =
  DATABASE | API | KAFKA | CACHE | QUEUE | SERVICE | STORAGE | LOADBALANCER | CUSTOM

fun NodeType_value :: "NodeType \<Rightarrow> string" where
  "NodeType_value DATABASE = ''database''"
| "NodeType_value API = ''api''"
| "NodeType_value KAFKA = ''kafka''"
| "NodeType_value CACHE = ''cache''"
| "NodeType_value QUEUE = ''queue''"
| "NodeType_value SERVICE = ''service''"
| "NodeType_value STORAGE = ''storage''"
| "NodeType_value LOADBALANCER = ''loadbalancer''"
| "NodeType_value CUSTOM = ''custom''"

text \<open>\<^verbatim>\<open>NodeType(s)\<close>: the member whose value is \<open>s\<close>; \<^verbatim>\<open>ValueError\<close> (here \<open>None\<close>)
  when there is none.\<close>

definition NodeType_lookup :: "string \<Rightarrow> NodeType option" where
  "NodeType_lookup s =
     (if s = ''database'' then Some DATABASE
      else if s = ''api'' then Some API
      else if s = ''kafka'' then Some KAFKA
      else if s = ''cache'' then Some CACHE
      else if s = ''queue'' then Some QUEUE
      else if s = ''service'' then Some SERVICE
      else if s = ''storage'' then Some STORAGE
      else if s = ''loadbalancer'' then Some LOADBALANCER
      else if s = ''custom'' then Some CUSTOM
      else None)"

text \<open>\<^verbatim>\<open>str.lower\<close> on the characters of a \<open>string\<close>: the letters A to Z move to
  a to z, every other character stays.\<close>

definition lower_char :: "char \<Rightarrow> char" where
  "lower_char c =
     (if 65 \<le> (of_char c :: nat) \<and> (of_char c :: nat) \<le> 90
      then char_of ((of_char c :: nat) + 32) else c)"

definition lower :: "string \<Rightarrow> string" where
  "lower s = map lower_char s"

text \<open>The values a metadata dictionary holds: \<^verbatim>\<open>Dict[str, Any]\<close>.\<close>

datatype pyval = PNone | PBool bool | PInt int | PStr string | PEnum NodeType

record Node =
  node_id :: string
  node_type :: NodeType
  node_metadata :: "(string, pyval) dict"

text \<open>The \<^verbatim>\<open>type\<close> argument of the constructor is a \<^verbatim>\<open>NodeType\<close> or a string.\<close>

datatype type_arg = TEnum NodeType | TStr string

text \<open>
  \<^verbatim>\<open>Node(id, type, metadata)\<close> with \<^verbatim>\<open>__post_init__\<close>. In the fallback branch the
  source first overwrites \<^verbatim>\<open>self.type\<close> with \<^verbatim>\<open>NodeType.CUSTOM\<close> and then stores
  \<^verbatim>\<open>self.type\<close> under \<^verbatim>\<open>"original_type"\<close>, so the value stored is the enumeration
  member \<^verbatim>\<open>CUSTOM\<close>.
\<close>

definition Node_init :: "string \<Rightarrow> type_arg \<Rightarrow> (string, pyval) dict \<Rightarrow> error + Node" where
  "Node_init i t md =
     (if i = [] then Inl (ValueError ''Node id cannot be empty'')
      else case t of
        TEnum k \<Rightarrow> Inr \<lparr>node_id = i, node_type = k, node_metadata = md\<rparr>
      | TStr s \<Rightarrow>
          (case NodeType_lookup (lower s) of
             Some k \<Rightarrow> Inr \<lparr>node_id = i, node_type = k, node_metadata = md\<rparr>
           | None \<Rightarrow>
               (let ty = CUSTOM in
                if \<not> dict_has md ''original_type''
                then Inr \<lparr>node_id = i, node_type = ty,
                          node_metadata = AList.update ''original_type'' (PEnum ty) md\<rparr>
                else Inr \<lparr>node_id = i, node_type = ty, node_metadata = md\<rparr>)))"

subsection \<open>Edge\<close>

record Edge =
  source :: string
  target :: string
  metadata :: "(string, pyval) dict"

definition Edge_init :: "string \<Rightarrow> string \<Rightarrow> (string, pyval) dict \<Rightarrow> error + Edge" where
  "Edge_init s t md =
     (if s = [] then Inl (ValueError ''Edge source cannot be empty'')
      else if t = [] then Inl (ValueError ''Edge target cannot be empty'')
      else if s = t then Inl (ValueError (''Self-loops not allowed: '' @ s @ '' -> '' @ t))
      else Inr \<lparr>source = s, target = t, metadata = md\<rparr>)"

text \<open>\<^verbatim>\<open>Edge.__eq__\<close> compares source and target only; membership in the set of
  edges goes through it.\<close>

definition Edge_eq :: "Edge \<Rightarrow> Edge \<Rightarrow> bool" where
  "Edge_eq e e' = (source e = source e' \<and> target e = target e')"

definition edge_in :: "Edge \<Rightarrow> Edge list \<Rightarrow> bool" where
  "edge_in e es = list_ex (Edge_eq e) es"

subsection \<open>Graph\<close>

text \<open>The fields of \<^verbatim>\<open>Graph\<close>. The cached NetworkX graph is outside the model; its
  staleness flag \<^verbatim>\<open>_dirty\<close> is kept.\<close>

record Graph =
  nodes :: "(string, Node) dict"
  edges :: "Edge list"
  adjacency :: "(string, string list) dict"
  reverse_adjacency :: "(string, string list) dict"
  dirty :: bool

definition Graph_init :: Graph where
  "Graph_init = \<lparr>nodes = [], edges = [], adjacency = [], reverse_adjacency = [], dirty = True\<rparr>"

definition quote :: "string \<Rightarrow> string" where
  "quote s = [CHR 0x27] @ s @ [CHR 0x27]"

definition add_node :: "Node \<Rightarrow> Graph \<Rightarrow> (error + unit) \<times> Graph" where
  "add_node node g =
     (if dict_has (nodes g) (node_id node)
      then (Inl (ValueError (''Node with id '' @ quote (node_id node) @ '' already exists'')), g)
      else (Inr (), g\<lparr>nodes := AList.update (node_id node) node (nodes g), dirty := True\<rparr>))"

definition add_edge :: "Edge \<Rightarrow> Graph \<Rightarrow> (error + unit) \<times> Graph" where
  "add_edge edge g =
     (if \<not> dict_has (nodes g) (source edge)
      then (Inl (ValueError (''Source node '' @ quote (source edge) @ '' does not exist'')), g)
      else if \<not> dict_has (nodes g) (target edge)
      then (Inl (ValueError (''Target node '' @ quote (target edge) @ '' does not exist'')), g)
      else if \<not> edge_in edge (edges g)
      then (Inr (), g\<lparr>edges := edges g @ [edge],
                       adjacency := dd_add (adjacency g) (source edge) (target edge),
                       reverse_adjacency := dd_add (reverse_adjacency g) (target edge) (source edge),
                       dirty := True\<rparr>)
      else (Inr (), g))"

definition get_node :: "string \<Rightarrow> Graph \<Rightarrow> Node option \<times> Graph" where
  "get_node n g = (map_of (nodes g) n, g)"

definition get_dependencies :: "string \<Rightarrow> Graph \<Rightarrow> string list \<times> Graph" where
  "get_dependencies n g = (dd_get (adjacency g) n, g)"

definition get_dependents :: "string \<Rightarrow> Graph \<Rightarrow> string list \<times> Graph" where
  "get_dependents n g = (dd_get (reverse_adjacency g) n, g)"

section \<open>Invariants and reachable graphs\<close>

text \<open>
  \<open>edge_pairs\<close> is the set of endpoint pairs of the edges. \<open>graph_inv\<close> collects what
  holds of every graph the mutation calls can build: dictionaries have distinct keys
  and sets no duplicates, every endpoint of an edge is a node (I1), no edge is a
  self-loop (I3), and both adjacency indexes hold exactly the endpoint pairs (I2).

  \<open>reachable\<close> are the graphs built from the empty graph by calls of \<^verbatim>\<open>add_node\<close>
  and \<^verbatim>\<open>add_edge\<close>, failed calls included (they return the graph they got). An
  \<^verbatim>\<open>Edge\<close> passed to \<^verbatim>\<open>add_edge\<close> has gone through its constructor. Rule \<open>order\<close>
  lets every set be iterated in any order: \<open>same_sets\<close> relates two graphs that differ
  only in the order in which their sets list their elements.
\<close>

definition edge_pairs :: "Graph \<Rightarrow> (string \<times> string) set" where
  "edge_pairs g = (\<lambda>e. (source e, target e)) ` set (edges g)"

definition dict_ok :: "('k, 'a list) dict \<Rightarrow> bool" where
  "dict_ok d = (distinct (map fst d) \<and> (\<forall>k. distinct (dd_get d k)))"

definition graph_inv :: "Graph \<Rightarrow> bool" where
  "graph_inv g =
     (distinct (map fst (nodes g)) \<and>
      distinct (map (\<lambda>e. (source e, target e)) (edges g)) \<and>
      dict_ok (adjacency g) \<and> dict_ok (reverse_adjacency g) \<and>
      (\<forall>e \<in> set (edges g). dict_has (nodes g) (source e) \<and> dict_has (nodes g) (target e)) \<and>
      (\<forall>e \<in> set (edges g). source e \<noteq> target e) \<and>
      (\<forall>s t. (t \<in> set (dd_get (adjacency g) s)) = ((s, t) \<in> edge_pairs g)) \<and>
      (\<forall>s t. (s \<in> set (dd_get (reverse_adjacency g) t)) = ((s, t) \<in> edge_pairs g)))"

definition same_dict :: "('k, 'a list) dict \<Rightarrow> ('k, 'a list) dict \<Rightarrow> bool" where
  "same_dict d d' = list_all2 (\<lambda>p q. fst p = fst q \<and> mset (snd p) = mset (snd q)) d d'"

definition same_sets :: "Graph \<Rightarrow> Graph \<Rightarrow> bool" where
  "same_sets g g' =
     (nodes g' = nodes g \<and> dirty g' = dirty g \<and> mset (edges g') = mset (edges g) \<and>
      same_dict (adjacency g) (adjacency g') \<and>
      same_dict (reverse_adjacency g) (reverse_adjacency g'))"

inductive reachable :: "Graph \<Rightarrow> bool" where
  init: "reachable Graph_init"
| node: "reachable g \<Longrightarrow> reachable (snd (add_node n g))"
| edge: "reachable g \<Longrightarrow> Edge_init s t md = Inr e \<Longrightarrow> reachable (snd (add_edge e g))"
| order: "reachable g \<Longrightarrow> same_sets g g' \<Longrightarrow> reachable g'"

text \<open>Two small graphs: a node and an edge without metadata, then the graph with
  nodes api, db, cache and edges api to db, api to cache, and the graph with nodes
  a, b, c and edges a to b, b to c, c to a.\<close>

definition mk_node :: "string \<Rightarrow> NodeType \<Rightarrow> Node" where
  "mk_node i k = \<lparr>node_id = i, node_type = k, node_metadata = []\<rparr>"

definition mk_edge :: "string \<Rightarrow> string \<Rightarrow> Edge" where
  "mk_edge s t = \<lparr>source = s, target = t, metadata = []\<rparr>"

definition scenario_dag :: Graph where
  "scenario_dag =
     snd (add_edge (mk_edge ''api'' ''cache'')
       (snd (add_edge (mk_edge ''api'' ''db'')
         (snd (add_node (mk_node ''cache'' CACHE)
           (snd (add_node (mk_node ''db'' DATABASE)
             (snd (add_node (mk_node ''api'' API) Graph_init)))))))))"

definition scenario_cycle :: Graph where
  "scenario_cycle =
     snd (add_edge (mk_edge ''c'' ''a'')
       (snd (add_edge (mk_edge ''b'' ''c'')
         (snd (add_edge (mk_edge ''a'' ''b'')
           (snd (add_node (mk_node ''c'' SERVICE)
             (snd (add_node (mk_node ''b'' SERVICE)
               (snd (add_node (mk_node ''a'' SERVICE) Graph_init)))))))))))"

text \<open>\<^verbatim>\<open>stats()["edge_count"]\<close> is \<^verbatim>\<open>len(self.edges)\<close>.\<close>

definition edge_count :: "Graph \<Rightarrow> nat" where
  "edge_count g = length (edges g)"

subsection \<open>Preservation of the invariants\<close>

lemma dd_get_touch [simp]: "dd_get (dd_touch d k) k' = dd_get d k'"
  by (auto simp: dd_get_def dd_touch_def split: option.splits if_splits)

lemma dd_get_add: "dd_get (dd_add d k x) k' = (if k' = k then set_add (dd_get d k) x else dd_get d k')"
  by (auto simp: dd_get_def dd_add_def update_conv' dd_touch_def split: option.splits)

lemma set_set_add [simp]: "set (set_add xs x) = insert x (set xs)"
  by (auto simp: set_add_def)

lemma distinct_set_add [simp]: "distinct (set_add xs x) = distinct xs"
  by (auto simp: set_add_def)

lemma keys_touch: "distinct (map fst d) \<Longrightarrow> distinct (map fst (dd_touch d k))"
  by (auto simp: dd_touch_def map_of_eq_None_iff split: option.splits)

lemma dict_ok_touch: "dict_ok d \<Longrightarrow> dict_ok (dd_touch d k)"
  by (simp add: dict_ok_def keys_touch)

lemma dict_ok_add: "dict_ok d \<Longrightarrow> dict_ok (dd_add d k x)"
  by (simp add: dict_ok_def dd_get_add) (simp add: dd_add_def distinct_update keys_touch)

lemma same_dict_keys: "same_dict d d' \<Longrightarrow> map fst d' = map fst d"
  unfolding same_dict_def by (induction d d' rule: list_all2_induct) auto

lemma same_dict_get: "same_dict d d' \<Longrightarrow> mset (dd_get d' k) = mset (dd_get d k)"
  unfolding same_dict_def dd_get_def
  by (induction d d' rule: list_all2_induct) (auto split: option.splits)

lemma same_dict_set: "same_dict d d' \<Longrightarrow> set (dd_get d' k) = set (dd_get d k)"
  using same_dict_get [of d d' k] by (metis set_mset_mset)

lemma same_dict_ok: "same_dict d d' \<Longrightarrow> dict_ok d \<Longrightarrow> dict_ok d'"
  using same_dict_get [of d d'] same_dict_keys [of d d']
  by (auto simp: dict_ok_def) (metis mset_eq_imp_distinct_iff)

lemma graph_inv_init: "graph_inv Graph_init"
  by (simp add: graph_inv_def Graph_init_def dict_ok_def dd_get_def edge_pairs_def)

lemma dict_has_update [simp]: "dict_has (AList.update k v d) k' = (k' = k \<or> dict_has d k')"
  by (auto simp: dict_has_def update_conv')

lemma snd_add_node:
  "snd (add_node n g) =
     (if dict_has (nodes g) (node_id n) then g
      else g\<lparr>nodes := AList.update (node_id n) n (nodes g), dirty := True\<rparr>)"
  by (simp add: add_node_def)

lemma add_node_cases:
  obtains (same) "snd (add_node n g) = g"
  | (new) "\<not> dict_has (nodes g) (node_id n)"
      "snd (add_node n g) = g\<lparr>nodes := AList.update (node_id n) n (nodes g), dirty := True\<rparr>"
proof (cases "dict_has (nodes g) (node_id n)")
  case True
  then have "snd (add_node n g) = g" by (simp add: snd_add_node)
  then show thesis by (rule same)
next
  case False
  then have "snd (add_node n g) = g\<lparr>nodes := AList.update (node_id n) n (nodes g), dirty := True\<rparr>"
    by (simp add: snd_add_node)
  with False show thesis by (rule new)
qed

lemma graph_inv_add_node:
  assumes "graph_inv g"
  shows "graph_inv (snd (add_node n g))"
proof (cases n g rule: add_node_cases)
  case same
  then show ?thesis using assms by simp
next
  case new
  let ?g = "snd (add_node n g)"
  have n: "nodes ?g = AList.update (node_id n) n (nodes g)" and ed: "edges ?g = edges g"
    and ad: "adjacency ?g = adjacency g" and ra: "reverse_adjacency ?g = reverse_adjacency g"
    by (simp_all add: new(2))
  have p: "edge_pairs ?g = edge_pairs g" by (simp add: edge_pairs_def ed)
  have 1: "distinct (map fst (nodes ?g))" using assms by (simp add: n graph_inv_def distinct_update)
  have 4: "\<forall>x \<in> set (edges ?g). dict_has (nodes ?g) (source x) \<and> dict_has (nodes ?g) (target x)"
    using assms by (simp add: n ed graph_inv_def)
  show ?thesis unfolding graph_inv_def p ad ra
    using 1 4 assms unfolding graph_inv_def ed by blast
qed

lemma edge_in_iff: "edge_in e es = ((source e, target e) \<in> (\<lambda>e. (source e, target e)) ` set es)"
  by (auto simp: edge_in_def list_ex_iff Edge_eq_def)

lemma snd_add_edge:
  "snd (add_edge e g) =
     (if dict_has (nodes g) (source e) \<and> dict_has (nodes g) (target e) \<and> \<not> edge_in e (edges g)
      then g\<lparr>edges := edges g @ [e],
             adjacency := dd_add (adjacency g) (source e) (target e),
             reverse_adjacency := dd_add (reverse_adjacency g) (target e) (source e),
             dirty := True\<rparr>
      else g)"
  by (simp add: add_edge_def)

lemma add_edge_cases:
  obtains (same) "snd (add_edge e g) = g"
  | (new) "dict_has (nodes g) (source e)" "dict_has (nodes g) (target e)"
      "(source e, target e) \<notin> edge_pairs g"
      "snd (add_edge e g) = g\<lparr>edges := edges g @ [e],
         adjacency := dd_add (adjacency g) (source e) (target e),
         reverse_adjacency := dd_add (reverse_adjacency g) (target e) (source e),
         dirty := True\<rparr>"
proof (cases "dict_has (nodes g) (source e) \<and> dict_has (nodes g) (target e) \<and> \<not> edge_in e (edges g)")
  case True
  then have "snd (add_edge e g) = g\<lparr>edges := edges g @ [e],
         adjacency := dd_add (adjacency g) (source e) (target e),
         reverse_adjacency := dd_add (reverse_adjacency g) (target e) (source e),
         dirty := True\<rparr>"
    by (simp add: snd_add_edge)
  moreover have "(source e, target e) \<notin> edge_pairs g"
    using True by (simp add: edge_in_iff edge_pairs_def)
  ultimately show thesis using True new by blast
next
  case False
  have "snd (add_edge e g) = g" unfolding snd_add_edge using False by (rule if_not_P)
  then show thesis by (rule same)
qed

lemma graph_inv_add_edge:
  assumes "graph_inv g" "source e \<noteq> target e"
  shows "graph_inv (snd (add_edge e g))"
proof (cases e g rule: add_edge_cases)
  case same
  then show ?thesis using assms by simp
next
  case new
  let ?g = "snd (add_edge e g)"
  have n: "nodes ?g = nodes g" and ed: "edges ?g = edges g @ [e]"
    and ad: "adjacency ?g = dd_add (adjacency g) (source e) (target e)"
    and ra: "reverse_adjacency ?g = dd_add (reverse_adjacency g) (target e) (source e)"
    by (simp_all add: new(4))
  have p: "edge_pairs ?g = insert (source e, target e) (edge_pairs g)"
    by (simp add: edge_pairs_def ed)
  have 1: "distinct (map fst (nodes ?g))" using assms by (simp add: n graph_inv_def)
  have 2: "distinct (map (\<lambda>e. (source e, target e)) (edges ?g))"
    using assms new(3) by (simp add: ed graph_inv_def edge_pairs_def)
  have 3: "dict_ok (adjacency ?g)" "dict_ok (reverse_adjacency ?g)"
    using assms by (simp_all add: ad ra graph_inv_def dict_ok_add)
  have 4: "\<forall>x \<in> set (edges ?g). dict_has (nodes ?g) (source x) \<and> dict_has (nodes ?g) (target x)"
    using assms new(1,2) by (simp add: n ed graph_inv_def)
  have 5: "\<forall>x \<in> set (edges ?g). source x \<noteq> target x"
    using assms by (simp add: ed graph_inv_def)
  have 6: "\<forall>s t. (t \<in> set (dd_get (adjacency ?g) s)) = ((s, t) \<in> edge_pairs ?g)"
    using assms(1) unfolding graph_inv_def p ad by (auto simp: dd_get_add)
  have 7: "\<forall>s t. (s \<in> set (dd_get (reverse_adjacency ?g) t)) = ((s, t) \<in> edge_pairs ?g)"
    using assms(1) unfolding graph_inv_def p ra by (auto simp: dd_get_add)
  show ?thesis unfolding graph_inv_def using 1 2 3 4 5 6 7 by blast
qed

lemma graph_inv_same:
  assumes "same_sets g g'" "graph_inv g"
  shows "graph_inv g'"
proof -
  have ms: "mset (edges g') = mset (edges g)"
    and a: "same_dict (adjacency g) (adjacency g')"
    and r: "same_dict (reverse_adjacency g) (reverse_adjacency g')"
    and n: "nodes g' = nodes g"
    using assms(1) by (simp_all add: same_sets_def)
  have e: "set (edges g') = set (edges g)" using ms by (rule mset_eq_setD)
  have "mset (map (\<lambda>e. (source e, target e)) (edges g')) =
        mset (map (\<lambda>e. (source e, target e)) (edges g))"
    unfolding mset_map ms by (rule refl)
  then have d: "distinct (map (\<lambda>e. (source e, target e)) (edges g')) =
      distinct (map (\<lambda>e. (source e, target e)) (edges g))"
    by (rule mset_eq_imp_distinct_iff)
  have p: "edge_pairs g' = edge_pairs g" by (simp add: edge_pairs_def e)
  have ok: "dict_ok (adjacency g')" "dict_ok (reverse_adjacency g')"
    using assms(2) same_dict_ok [OF a] same_dict_ok [OF r] by (simp_all add: graph_inv_def)
  show ?thesis
    unfolding graph_inv_def p n e d same_dict_set [OF a] same_dict_set [OF r]
    using assms(2) ok unfolding graph_inv_def by simp
qed

lemma reachable_inv: "reachable g \<Longrightarrow> graph_inv g"
proof (induction rule: reachable.induct)
  case init
  show ?case by (rule graph_inv_init)
next
  case (node g n)
  then show ?case by (simp add: graph_inv_add_node)
next
  case (edge g s t md e)
  then have "source e \<noteq> target e" by (auto simp: Edge_init_def split: if_splits)
  with edge show ?case by (simp add: graph_inv_add_edge)
next
  case (order g g')
  then show ?case using graph_inv_same by blast
qed

lemma Edge_init_mk_edge: "s \<noteq> [] \<Longrightarrow> t \<noteq> [] \<Longrightarrow> s \<noteq> t \<Longrightarrow> Edge_init s t [] = Inr (mk_edge s t)"
  by (simp add: Edge_init_def mk_edge_def)

lemma reachable_mk_edge:
  "reachable g \<Longrightarrow> s \<noteq> [] \<Longrightarrow> t \<noteq> [] \<Longrightarrow> s \<noteq> t \<Longrightarrow> reachable (snd (add_edge (mk_edge s t) g))"
  by (rule reachable.edge [OF _ Edge_init_mk_edge])

lemma reachable_scenario_dag: "reachable scenario_dag"
  unfolding scenario_dag_def
  by (intro reachable_mk_edge reachable.node reachable.init) simp_all

lemma reachable_scenario_cycle: "reachable scenario_cycle"
  unfolding scenario_cycle_def
  by (intro reachable_mk_edge reachable.node reachable.init) simp_all

lemma scenario_dag_eq:
  "scenario_dag = \<lparr>nodes = [(''api'', mk_node ''api'' API), (''db'', mk_node ''db'' DATABASE),
                            (''cache'', mk_node ''cache'' CACHE)],
                   edges = [mk_edge ''api'' ''db'', mk_edge ''api'' ''cache''],
                   adjacency = [(''api'', [''db'', ''cache''])],
                   reverse_adjacency = [(''db'', [''api'']), (''cache'', [''api''])],
                   dirty = True\<rparr>"
  by (simp add: scenario_dag_def snd_add_edge snd_add_node Graph_init_def mk_node_def mk_edge_def
      dict_has_def edge_in_def Edge_eq_def dd_add_def dd_get_def dd_touch_def set_add_def)

lemma scenario_cycle_eq:
  "scenario_cycle = \<lparr>nodes = [(''a'', mk_node ''a'' SERVICE), (''b'', mk_node ''b'' SERVICE),
                            (''c'', mk_node ''c'' SERVICE)],
                   edges = [mk_edge ''a'' ''b'', mk_edge ''b'' ''c'', mk_edge ''c'' ''a''],
                   adjacency = [(''a'', [''b'']), (''b'', [''c'']), (''c'', [''a''])],
                   reverse_adjacency = [(''b'', [''a'']), (''c'', [''b'']), (''a'', [''c''])],
                   dirty = True\<rparr>"
  by (simp add: scenario_cycle_def snd_add_edge snd_add_node Graph_init_def mk_node_def mk_edge_def
      dict_has_def edge_in_def Edge_eq_def dd_add_def dd_get_def dd_touch_def set_add_def)

section \<open>Node kinds\<close>

text \<open>The values of the members of \<^verbatim>\<open>NodeType\<close>.\<close>

definition known_values :: "string set" where
  "known_values = {''database'', ''api'', ''kafka'', ''cache'', ''queue'', ''service'',
                   ''storage'', ''loadbalancer'', ''custom''}"

lemma NodeType_lookup_known:
  "s \<in> known_values \<Longrightarrow> \<exists>k. NodeType_lookup s = Some k \<and> NodeType_value k = s"
  by (auto simp: known_values_def NodeType_lookup_def)

lemma NodeType_lookup_unknown: "s \<notin> known_values \<Longrightarrow> NodeType_lookup s = None"
  by (simp add: known_values_def NodeType_lookup_def)

lemma map_of_update_other: "k \<noteq> k' \<Longrightarrow> map_of (AList.update k' v d) k = map_of d k"
  by (simp add: update_conv')

lemma lower_Kafka: "lower ''Kafka'' = ''kafka''"
  by code_simp

lemma lower_event_stream: "lower ''event-stream'' = ''event-stream''"
  by code_simp

text \<open>
  C4, as the code has it. For every non-empty id and every textual kind, constructing a
  node succeeds. When the lower-cased kind is the value of a member of the enumeration,
  that is one of database, api, kafka, cache, queue, service, storage, loadbalancer and
  custom, the node gets that member and its metadata are the ones given. For any other
  kind the node gets the member custom, and every metadata entry other than
  \<open>original_type\<close> is as given.
\<close>

theorem node_kind_coercion:
  assumes "i \<noteq> []"
  shows "\<exists>n. Node_init i (TStr s) md = Inr n \<and> node_id n = i \<and>
           (lower s \<in> known_values \<longrightarrow> NodeType_value (node_type n) = lower s \<and> node_metadata n = md) \<and>
           (lower s \<notin> known_values \<longrightarrow> node_type n = CUSTOM \<and>
              (\<forall>k. k \<noteq> ''original_type'' \<longrightarrow> map_of (node_metadata n) k = map_of md k))"
proof (cases "lower s \<in> known_values")
  case True
  then obtain k where "NodeType_lookup (lower s) = Some k" "NodeType_value k = lower s"
    using NodeType_lookup_known by blast
  then show ?thesis using assms True by (simp add: Node_init_def)
next
  case False
  then have "NodeType_lookup (lower s) = None" by (rule NodeType_lookup_unknown)
  then show ?thesis using assms False
    by (simp add: Node_init_def Let_def map_of_update_other)
qed

theorem node_kind_coercion_witness:
  "''n1'' \<noteq> [] \<and>
   Node_init ''n1'' (TStr ''Kafka'') [] = Inr \<lparr>node_id = ''n1'', node_type = KAFKA, node_metadata = []\<rparr> \<and>
   lower ''Kafka'' \<in> known_values \<and>
   lower ''event-stream'' \<notin> known_values"
proof -
  have 1: "lower ''Kafka'' \<in> known_values" "lower ''event-stream'' \<notin> known_values"
    by (simp_all add: lower_Kafka lower_event_stream known_values_def)
  have 2: "NodeType_value k = ''kafka'' \<Longrightarrow> k = KAFKA" for k by (cases k) simp_all
  have 0: "''n1'' \<noteq> []" by simp
  show ?thesis
    using node_kind_coercion [OF 0, of "''Kafka''" "[]"] 1 2
    by (auto simp: lower_Kafka)
qed

text \<open>
  The kind \<open>event-stream\<close> is not the value of any member: the node gets the member
  custom, and the entry \<open>original_type\<close> holds that member and not the string.
\<close>

theorem node_kind_counterexample:
  "Node_init ''n1'' (TStr ''event-stream'') [] =
     Inr \<lparr>node_id = ''n1'', node_type = CUSTOM, node_metadata = [(''original_type'', PEnum CUSTOM)]\<rparr> \<and>
   NodeType_value CUSTOM \<noteq> ''event-stream'' \<and>
   map_of [(''original_type'', PEnum CUSTOM)] ''original_type'' \<noteq> Some (PStr ''event-stream'')"
  by (simp add: Node_init_def lower_event_stream NodeType_lookup_def dict_has_def)

section \<open>Mutation\<close>

text \<open>
  C2. Every graph reachable from the empty graph by calls of \<^verbatim>\<open>add_node\<close> and
  \<^verbatim>\<open>add_edge\<close>, failed ones included, satisfies: every endpoint of an edge is a node
  (I1); \<open>t\<close> is in the forward adjacency of \<open>s\<close> iff \<open>s\<close> is in the reverse adjacency
  of \<open>t\<close> iff an edge from \<open>s\<close> to \<open>t\<close> is in the edges, so no other membership exists
  (I2); no edge is a self-loop (I3); and the dependencies and the dependents are duals.
\<close>

theorem graph_invariants:
  assumes "reachable g"
  shows "(\<forall>e \<in> set (edges g). dict_has (nodes g) (source e) \<and> dict_has (nodes g) (target e)) \<and>
         (\<forall>s t. (t \<in> set (dd_get (adjacency g) s)) = (s \<in> set (dd_get (reverse_adjacency g) t)) \<and>
                (t \<in> set (dd_get (adjacency g) s)) = (\<exists>e \<in> set (edges g). source e = s \<and> target e = t)) \<and>
         (\<forall>e \<in> set (edges g). source e \<noteq> target e) \<and>
         (\<forall>s t. (t \<in> set (fst (get_dependencies s g))) = (s \<in> set (fst (get_dependents t g))))"
proof -
  have inv: "graph_inv g" using assms by (rule reachable_inv)
  have p: "((s, t) \<in> edge_pairs g) = (\<exists>e \<in> set (edges g). source e = s \<and> target e = t)" for s t
    by (auto simp: edge_pairs_def)
  have 1: "\<forall>e \<in> set (edges g). dict_has (nodes g) (source e) \<and> dict_has (nodes g) (target e)"
    using inv by (simp add: graph_inv_def)
  have 3: "\<forall>e \<in> set (edges g). source e \<noteq> target e"
    using inv by (simp add: graph_inv_def)
  have a: "(t \<in> set (dd_get (adjacency g) s)) = ((s, t) \<in> edge_pairs g)" for s t
    using inv by (simp add: graph_inv_def)
  have r: "(s \<in> set (dd_get (reverse_adjacency g) t)) = ((s, t) \<in> edge_pairs g)" for s t
    using inv by (simp add: graph_inv_def)
  have 2: "\<forall>s t. (t \<in> set (dd_get (adjacency g) s)) = (s \<in> set (dd_get (reverse_adjacency g) t)) \<and>
                (t \<in> set (dd_get (adjacency g) s)) = (\<exists>e \<in> set (edges g). source e = s \<and> target e = t)"
    by (simp add: a r p)
  have 4: "\<forall>s t. (t \<in> set (fst (get_dependencies s g))) = (s \<in> set (fst (get_dependents t g)))"
    by (simp add: get_dependencies_def get_dependents_def a r)
  show ?thesis using 1 2 3 4 by blast
qed

theorem graph_invariants_witness:
  "reachable scenario_dag \<and>
   dict_has (nodes scenario_dag) ''api'' \<and> dict_has (nodes scenario_dag) ''db'' \<and>
   ''db'' \<in> set (dd_get (adjacency scenario_dag) ''api'') \<and>
   ''api'' \<in> set (dd_get (reverse_adjacency scenario_dag) ''db'') \<and>
   ''db'' \<in> set (fst (get_dependencies ''api'' scenario_dag)) \<and>
   ''api'' \<in> set (fst (get_dependents ''db'' scenario_dag))"
  using graph_invariants [OF reachable_scenario_dag] reachable_scenario_dag
  by (simp add: scenario_dag_eq dd_get_def dict_has_def get_dependencies_def get_dependents_def)



text \<open>
  C9. In a reachable graph that has an edge from \<open>s\<close> to \<open>t\<close>, \<^verbatim>\<open>add_edge\<close> with any
  edge from \<open>s\<close> to \<open>t\<close>, whatever its metadata, does not raise and returns the graph
  unchanged: the edges, both adjacency indexes and the edge count are as before.
\<close>

theorem add_edge_idempotent:
  assumes "reachable g" "\<exists>e' \<in> set (edges g). source e' = source e \<and> target e' = target e"
  shows "add_edge e g = (Inr (), g) \<and> edge_count (snd (add_edge e g)) = edge_count g"
proof -
  have inv: "graph_inv g" using assms(1) by (rule reachable_inv)
  from assms(2) obtain e' where e': "e' \<in> set (edges g)" "source e' = source e" "target e' = target e"
    by blast
  have "dict_has (nodes g) (source e')" "dict_has (nodes g) (target e')"
    using inv e'(1) by (simp_all add: graph_inv_def)
  then have n: "dict_has (nodes g) (source e)" "dict_has (nodes g) (target e)"
    by (simp_all add: e')
  have i: "edge_in e (edges g)"
    unfolding edge_in_def list_ex_iff Edge_eq_def using e' by (intro bexI [of _ e']) simp_all
  show ?thesis using n i by (simp add: add_edge_def)
qed

theorem add_edge_idempotent_witness:
  "reachable scenario_dag \<and>
   add_edge \<lparr>source = ''api'', target = ''db'', metadata = [(''latency'', PInt 5)]\<rparr> scenario_dag
     = (Inr (), scenario_dag) \<and>
   edge_count (snd (add_edge \<lparr>source = ''api'', target = ''db'', metadata = [(''latency'', PInt 5)]\<rparr>
     scenario_dag)) = 2"
proof -
  let ?e = "\<lparr>source = ''api'', target = ''db'', metadata = [(''latency'', PInt 5)]\<rparr>"
  have h: "\<exists>e' \<in> set (edges scenario_dag). source e' = source ?e \<and> target e' = target ?e"
    by (simp add: scenario_dag_eq mk_edge_def)
  have c: "edge_count scenario_dag = 2" by (simp add: scenario_dag_eq edge_count_def)
  show ?thesis
    using add_edge_idempotent [OF reachable_scenario_dag h] reachable_scenario_dag c by simp
qed

subsection \<open>Removal\<close>

definition dd_remove :: "'k \<Rightarrow> ('k, 'k list) dict \<Rightarrow> ('k, 'k list) dict" where
  "dd_remove n d = map (\<lambda>p. (fst p, removeAll n (snd p))) (AList.delete n d)"

text \<open>Modelled from the spec: \<^verbatim>\<open>remove_node\<close>, which the sources only call
  (\<^verbatim>\<open>delete_node\<close> in \<^verbatim>\<open>api/routes/nodes.py\<close> calls the service's removal and
  catches its error) and never define. It fails with \<open>UnknownNodeError\<close> when the id
  is absent; otherwise it removes the node and every edge where it is source or
  target, and updates both adjacency indexes accordingly.\<close>

definition remove_node :: "string \<Rightarrow> Graph \<Rightarrow> (error + unit) \<times> Graph" where
  "remove_node n g =
     (if \<not> dict_has (nodes g) n then (Inl (UnknownNodeError n), g)
      else (Inr (), g\<lparr>nodes := AList.delete n (nodes g),
                       edges := filter (\<lambda>e. source e \<noteq> n \<and> target e \<noteq> n) (edges g),
                       adjacency := dd_remove n (adjacency g),
                       reverse_adjacency := dd_remove n (reverse_adjacency g),
                       dirty := True\<rparr>))"

lemma map_of_map_snd: "map_of (map (\<lambda>p. (fst p, f (snd p))) d) k = map_option f (map_of d k)"
  by (induction d) auto

lemma dd_get_remove:
  "dd_get (dd_remove n d) k = (if k = n then [] else removeAll n (dd_get d k))"
  by (simp add: dd_get_def dd_remove_def map_of_map_snd delete_conv' split: option.splits)

lemma dict_has_delete: "dict_has (AList.delete n d) k = (k \<noteq> n \<and> dict_has d k)"
  by (simp add: dict_has_def delete_conv')

text \<open>
  C5. \<^verbatim>\<open>remove_node\<close> fails with \<open>UnknownNodeError\<close> and changes nothing when the id
  is absent. Otherwise it succeeds, and afterwards the id is not a node, the other
  nodes are as before, the edges are the old ones without those that had the id as
  source or target, both adjacency indexes have lost exactly the memberships that
  mention the id, and the edge count is the number of edges that remain.
\<close>

theorem remove_node_spec:
  "(\<not> dict_has (nodes g) n \<longrightarrow> remove_node n g = (Inl (UnknownNodeError n), g)) \<and>
   (dict_has (nodes g) n \<longrightarrow>
      fst (remove_node n g) = Inr () \<and>
      \<not> dict_has (nodes (snd (remove_node n g))) n \<and>
      (\<forall>k. k \<noteq> n \<longrightarrow> map_of (nodes (snd (remove_node n g))) k = map_of (nodes g) k) \<and>
      edges (snd (remove_node n g)) = filter (\<lambda>e. source e \<noteq> n \<and> target e \<noteq> n) (edges g) \<and>
      (\<forall>s t. (t \<in> set (dd_get (adjacency (snd (remove_node n g))) s)) =
               (t \<in> set (dd_get (adjacency g) s) \<and> s \<noteq> n \<and> t \<noteq> n)) \<and>
      (\<forall>s t. (s \<in> set (dd_get (reverse_adjacency (snd (remove_node n g))) t)) =
               (s \<in> set (dd_get (reverse_adjacency g) t) \<and> s \<noteq> n \<and> t \<noteq> n)) \<and>
      n \<notin> set (dict_keys (nodes (snd (remove_node n g)))) \<and>
      edge_count (snd (remove_node n g)) =
        length (filter (\<lambda>e. source e \<noteq> n \<and> target e \<noteq> n) (edges g)))"
proof (cases "dict_has (nodes g) n")
  case False
  then show ?thesis by (simp add: remove_node_def)
next
  case True
  have g': "snd (remove_node n g) = g\<lparr>nodes := AList.delete n (nodes g),
                       edges := filter (\<lambda>e. source e \<noteq> n \<and> target e \<noteq> n) (edges g),
                       adjacency := dd_remove n (adjacency g),
                       reverse_adjacency := dd_remove n (reverse_adjacency g),
                       dirty := True\<rparr>"
    and r: "fst (remove_node n g) = Inr ()"
    using True by (simp_all add: remove_node_def)
  have k: "n \<notin> set (dict_keys (AList.delete n (nodes g)))"
    by (simp add: dict_keys_def delete_keys)
  show ?thesis using True r k
    by (auto simp: g' dict_has_delete dd_get_remove edge_count_def delete_conv')
qed

theorem remove_node_spec_witness:
  "dict_has (nodes scenario_dag) ''api'' \<and> \<not> dict_has (nodes scenario_dag) ''web'' \<and>
   remove_node ''web'' scenario_dag = (Inl (UnknownNodeError ''web''), scenario_dag) \<and>
   fst (remove_node ''api'' scenario_dag) = Inr () \<and>
   edges (snd (remove_node ''api'' scenario_dag)) = [] \<and>
   edge_count (snd (remove_node ''api'' scenario_dag)) = 0 \<and>
   \<not> dict_has (nodes (snd (remove_node ''api'' scenario_dag))) ''api''"
proof -
  have h: "dict_has (nodes scenario_dag) ''api''" "\<not> dict_has (nodes scenario_dag) ''web''"
    by (simp_all add: scenario_dag_eq dict_has_def)
  have e: "filter (\<lambda>e. source e \<noteq> ''api'' \<and> target e \<noteq> ''api'') (edges scenario_dag) = []"
    by (simp add: scenario_dag_eq mk_edge_def)
  show ?thesis
    using h remove_node_spec [of scenario_dag "''api''"] remove_node_spec [of scenario_dag "''web''"]
    by (simp add: e)
qed

text \<open>Removal keeps the invariants.\<close>

lemma dict_ok_remove: "dict_ok d \<Longrightarrow> dict_ok (dd_remove n d)"
proof -
  assume a: "dict_ok d"
  have "map fst (dd_remove n d) = map fst (AList.delete n d)"
    by (simp add: dd_remove_def comp_def)
  then have "distinct (map fst (dd_remove n d))"
    using a by (simp add: dict_ok_def distinct_delete)
  moreover have "distinct (dd_get (dd_remove n d) k)" for k
    using a by (simp add: dict_ok_def dd_get_remove distinct_removeAll)
  ultimately show ?thesis by (simp add: dict_ok_def)
qed

lemma graph_inv_remove_node:
  assumes "graph_inv g"
  shows "graph_inv (snd (remove_node n g))"
proof (cases "dict_has (nodes g) n")
  case False
  then show ?thesis using assms by (simp add: remove_node_def)
next
  case True
  let ?g = "snd (remove_node n g)"
  have nd: "nodes ?g = AList.delete n (nodes g)"
    and ed: "edges ?g = filter (\<lambda>e. source e \<noteq> n \<and> target e \<noteq> n) (edges g)"
    and ad: "adjacency ?g = dd_remove n (adjacency g)"
    and ra: "reverse_adjacency ?g = dd_remove n (reverse_adjacency g)"
    using True by (simp_all add: remove_node_def)
  have p: "((s, t) \<in> edge_pairs ?g) = ((s, t) \<in> edge_pairs g \<and> s \<noteq> n \<and> t \<noteq> n)" for s t
    by (auto simp: edge_pairs_def ed)
  have 1: "distinct (map fst (nodes ?g))"
    using assms by (simp add: nd graph_inv_def distinct_delete)
  have 2: "distinct (map (\<lambda>e. (source e, target e)) (edges ?g))"
    using assms by (simp add: ed graph_inv_def distinct_map_filter)
  have 3: "dict_ok (adjacency ?g)" "dict_ok (reverse_adjacency ?g)"
    using assms by (simp_all add: ad ra graph_inv_def dict_ok_remove)
  have 4: "\<forall>x \<in> set (edges ?g). dict_has (nodes ?g) (source x) \<and> dict_has (nodes ?g) (target x)"
    using assms by (simp add: nd ed graph_inv_def dict_has_delete)
  have 5: "\<forall>x \<in> set (edges ?g). source x \<noteq> target x"
    using assms by (simp add: ed graph_inv_def)
  have a: "(t \<in> set (dd_get (adjacency g) s)) = ((s, t) \<in> edge_pairs g)" for s t
    using assms by (simp add: graph_inv_def)
  have r: "(s \<in> set (dd_get (reverse_adjacency g) t)) = ((s, t) \<in> edge_pairs g)" for s t
    using assms by (simp add: graph_inv_def)
  have 6: "\<forall>s t. (t \<in> set (dd_get (adjacency ?g) s)) = ((s, t) \<in> edge_pairs ?g)"
    by (auto simp: ad p dd_get_remove a)
  have 7: "\<forall>s t. (s \<in> set (dd_get (reverse_adjacency ?g) t)) = ((s, t) \<in> edge_pairs ?g)"
    by (auto simp: ra p dd_get_remove r)
  show ?thesis unfolding graph_inv_def using 1 2 3 4 5 6 7 by blast
qed

end
